theory Spec2Isabelle
  imports Main "HOL-Library.Sublist" "HOL-Library.Word"
begin

section \<open>The Fiber lineage model (fiber.js)\<close>

text \<open>
  Values that can travel as the \<open>context\<close> payload of a transform and that
  \<open>JSON.stringify\<close> prints. An object is the list of its members in property order.
\<close>

datatype json =
    JNull
  | JBool bool
  | JStr string
  | JArr "json list"
  | JObj "(string \<times> json) list"

text \<open>
  A history entry. The constructor writes \<open>{stage, color}\<close> (no \<open>context\<close> property),
  transform writes \<open>{stage, color, context}\<close>; \<open>entry_context = None\<close> is the absent
  property, \<open>Some JNull\<close> is a property holding \<open>null\<close>.
\<close>

record entry =
  stage :: string
  entry_color :: string
  entry_context :: "json option"

datatype class_name = Fiber | WarpFiber | WeftFiber

text \<open>
  A Fiber object: the class it was created from and its four fields
  (\<open>fiber_id\<close> is the field \<open>id\<close>; \<open>color\<close> is what the specification calls
  \<open>stage_tag\<close>).
\<close>

record fiber =
  cls :: class_name
  fiber_id :: string
  color :: string
  history :: "entry list"
  markers :: "string list"

text \<open>
  Objects live in a store and are handled through references, so that
  "returns the same Fiber" is a statement about the returned reference.
  A reference is the index of the object in the store.
\<close>

type_synonym ref = nat
type_synonym heap = "fiber list"

definition deref :: "heap \<Rightarrow> ref \<Rightarrow> fiber option" where
  "deref h r = (if r < length h then Some (h ! r) else None)"

definition alloc :: "heap \<Rightarrow> fiber \<Rightarrow> ref \<times> heap" where
  "alloc h f = (length h, h @ [f])"

definition store :: "heap \<Rightarrow> ref \<Rightarrow> fiber \<Rightarrow> heap" where
  "store h r f = h[r := f]"

subsection \<open>Constructor\<close>

text \<open>
  \<open>constructor(id, colorStart = 'gold')\<close>: an omitted (undefined) second argument is
  \<open>None\<close> and takes the default. The first argument of the model is the class named in
  the \<open>new\<close> expression.
\<close>

definition Fiber_constructor :: "class_name \<Rightarrow> string \<Rightarrow> string option \<Rightarrow> fiber" where
  "Fiber_constructor c i colorStart =
     (let col = (case colorStart of None \<Rightarrow> ''gold'' | Some s \<Rightarrow> s)
      in \<lparr> cls = c, fiber_id = i, color = col,
           history = [\<lparr> stage = ''start'', entry_color = col, entry_context = None \<rparr>],
           markers = [] \<rparr>)"

text \<open>
  \<open>class WarpFiber extends Fiber {}\<close> and \<open>class WeftFiber extends Fiber {}\<close> have
  the implicit constructor, which passes every argument on to the constructor of the
  superclass.
\<close>

fun construct :: "class_name \<Rightarrow> string \<Rightarrow> string option \<Rightarrow> fiber" where
  "construct Fiber i colorStart = Fiber_constructor Fiber i colorStart"
| "construct WarpFiber i colorStart = Fiber_constructor WarpFiber i colorStart"
| "construct WeftFiber i colorStart = Fiber_constructor WeftFiber i colorStart"

definition new :: "class_name \<Rightarrow> string \<Rightarrow> string option \<Rightarrow> heap \<Rightarrow> ref \<times> heap" where
  "new c i colorStart h = alloc h (construct c i colorStart)"

text \<open>\<open>create(id, initial_label)\<close> of the specification: \<open>new Fiber(id, initial_label)\<close>.\<close>

definition create :: "string \<Rightarrow> string \<Rightarrow> heap \<Rightarrow> ref \<times> heap" where
  "create i initial_label h = new Fiber i (Some initial_label) h"

subsection \<open>Methods of class Fiber\<close>

text \<open>
  Each method body is given first as its effect on the receiver \<open>this\<close>; the method
  itself reads the receiver from the store, writes it back and returns what the source
  returns. A call through a reference that holds no object has no result (\<open>None\<close>).

  \<open>transform(type, color, context = null)\<close>: an omitted (undefined) third argument is
  \<open>None\<close> and takes the default \<open>null\<close>. The parameters are \<open>typ\<close>, \<open>col\<close> and
  \<open>contxt\<close> here.
\<close>

definition Fiber_transform :: "fiber \<Rightarrow> string \<Rightarrow> string \<Rightarrow> json option \<Rightarrow> fiber" where
  "Fiber_transform this typ col contxt =
     (let ctx = (case contxt of None \<Rightarrow> JNull | Some v \<Rightarrow> v);
          this1 = this\<lparr> color := col \<rparr>
      in this1\<lparr> history := history this1
                 @ [\<lparr> stage = typ, entry_color = col, entry_context = Some ctx \<rparr>] \<rparr>)"

definition transform :: "ref \<Rightarrow> string \<Rightarrow> string \<Rightarrow> json option \<Rightarrow> heap \<Rightarrow> (ref \<times> heap) option" where
  "transform this typ col contxt h =
     (case deref h this of
        None \<Rightarrow> None
      | Some f \<Rightarrow> Some (this, store h this (Fiber_transform f typ col contxt)))"

definition Fiber_addMarker :: "fiber \<Rightarrow> string \<Rightarrow> fiber" where
  "Fiber_addMarker this markerType = this\<lparr> markers := markers this @ [markerType] \<rparr>"

definition addMarker :: "ref \<Rightarrow> string \<Rightarrow> heap \<Rightarrow> (ref \<times> heap) option" where
  "addMarker this markerType h =
     (case deref h this of
        None \<Rightarrow> None
      | Some f \<Rightarrow> Some (this, store h this (Fiber_addMarker f markerType)))"

subsection \<open>JSON.stringify(value, null, 2)\<close>

text \<open>
  The serialisation of ECMAScript for the values above, with the gap of two spaces.
  A character of a string is one code unit from U+0000 to U+00FF; every character from
  \<open>0x20\<close> on other than the double quote and the backslash is copied.
\<close>

definition hex_digit :: "nat \<Rightarrow> char" where
  "hex_digit n = ''0123456789abcdef'' ! (n mod 16)"

definition escape_char :: "char \<Rightarrow> string" where
  "escape_char c =
     (if c = CHR 0x08 then [CHR 0x5C, CHR ''b'']
      else if c = CHR 0x09 then [CHR 0x5C, CHR ''t'']
      else if c = CHR 0x0A then [CHR 0x5C, CHR ''n'']
      else if c = CHR 0x0C then [CHR 0x5C, CHR ''f'']
      else if c = CHR 0x0D then [CHR 0x5C, CHR ''r'']
      else if c = CHR 0x22 then [CHR 0x5C, CHR 0x22]
      else if c = CHR 0x5C then [CHR 0x5C, CHR 0x5C]
      else if (of_char c :: nat) < 0x20
        then [CHR 0x5C, CHR ''u'', CHR ''0'', CHR ''0'',
              hex_digit ((of_char c :: nat) div 16), hex_digit (of_char c :: nat)]
      else [c])"

definition QuoteJSONString :: "string \<Rightarrow> string" where
  "QuoteJSONString s = [CHR 0x22] @ concat (map escape_char s) @ [CHR 0x22]"

fun join :: "string \<Rightarrow> string list \<Rightarrow> string" where
  "join sep [] = []"
| "join sep [x] = x"
| "join sep (x # y # ys) = x @ sep @ join sep (y # ys)"

definition gap :: string where
  "gap = ''  ''"

fun SerializeJSONProperty :: "string \<Rightarrow> json \<Rightarrow> string" where
  "SerializeJSONProperty indent JNull = ''null''"
| "SerializeJSONProperty indent (JBool b) = (if b then ''true'' else ''false'')"
| "SerializeJSONProperty indent (JStr s) = QuoteJSONString s"
| "SerializeJSONProperty indent (JArr xs) =
     (if xs = [] then ''[]''
      else ''['' @ [CHR 0x0A] @ (indent @ gap)
           @ join ('','' @ [CHR 0x0A] @ (indent @ gap))
                  (map (SerializeJSONProperty (indent @ gap)) xs)
           @ [CHR 0x0A] @ indent @ '']'')"
| "SerializeJSONProperty indent (JObj ms) =
     (if ms = [] then ''{}''
      else ''{'' @ [CHR 0x0A] @ (indent @ gap)
           @ join ('','' @ [CHR 0x0A] @ (indent @ gap))
                  (map (\<lambda>m. QuoteJSONString (fst m) @ '': ''
                               @ SerializeJSONProperty (indent @ gap) (snd m)) ms)
           @ [CHR 0x0A] @ indent @ ''}'')"

definition JSON_stringify :: "json \<Rightarrow> string" where
  "JSON_stringify v = SerializeJSONProperty [] v"

subsection \<open>exportLineage\<close>

text \<open>
  The object a history entry is: the constructor's entry has two properties, an entry
  written by transform has three.
\<close>

definition entry_json :: "entry \<Rightarrow> json" where
  "entry_json e =
     JObj ([(''stage'', JStr (stage e)), (''color'', JStr (entry_color e))]
           @ (case entry_context e of None \<Rightarrow> [] | Some v \<Rightarrow> [(''context'', v)]))"

text \<open>The object literal \<open>{ id: this.id, history: this.history, markers: this.markers }\<close>.\<close>

definition lineage_json :: "fiber \<Rightarrow> json" where
  "lineage_json this =
     JObj [(''id'', JStr (fiber_id this)),
           (''history'', JArr (map entry_json (history this))),
           (''markers'', JArr (map JStr (markers this)))]"

definition Fiber_exportLineage :: "fiber \<Rightarrow> string" where
  "Fiber_exportLineage this = JSON_stringify (lineage_json this)"

definition exportLineage :: "ref \<Rightarrow> heap \<Rightarrow> (string \<times> heap) option" where
  "exportLineage this h =
     (case deref h this of
        None \<Rightarrow> None
      | Some f \<Rightarrow> Some (Fiber_exportLineage f, h))"

subsection \<open>Method calls on Fiber, WarpFiber and WeftFiber objects\<close>

text \<open>
  A method call looks the method up in the class of the object and then along
  \<open>extends\<close>. The bodies of WarpFiber and WeftFiber are empty.
\<close>

datatype method_name = M_transform | M_addMarker | M_exportLineage

fun declares :: "class_name \<Rightarrow> method_name list" where
  "declares Fiber = [M_transform, M_addMarker, M_exportLineage]"
| "declares WarpFiber = []"
| "declares WeftFiber = []"

fun extends :: "class_name \<Rightarrow> class_name option" where
  "extends Fiber = None"
| "extends WarpFiber = Some Fiber"
| "extends WeftFiber = Some Fiber"

definition resolve :: "class_name \<Rightarrow> method_name \<Rightarrow> class_name option" where
  "resolve c m =
     (if m \<in> set (declares c) then Some c
      else (case extends c of
              None \<Rightarrow> None
            | Some s \<Rightarrow> if m \<in> set (declares s) then Some s else None))"

datatype call =
    Transform string string "json option"
  | AddMarker string
  | ExportLineage

datatype retval = RetFiber ref | RetString string

fun method_of :: "call \<Rightarrow> method_name" where
  "method_of (Transform typ col contxt) = M_transform"
| "method_of (AddMarker markerType) = M_addMarker"
| "method_of ExportLineage = M_exportLineage"

fun Fiber_method :: "ref \<Rightarrow> call \<Rightarrow> heap \<Rightarrow> (retval \<times> heap) option" where
  "Fiber_method r (Transform typ col contxt) h =
     map_option (\<lambda>(r', h'). (RetFiber r', h')) (transform r typ col contxt h)"
| "Fiber_method r (AddMarker markerType) h =
     map_option (\<lambda>(r', h'). (RetFiber r', h')) (addMarker r markerType h)"
| "Fiber_method r ExportLineage h =
     map_option (\<lambda>(s, h'). (RetString s, h')) (exportLineage r h)"

definition invoke :: "ref \<Rightarrow> call \<Rightarrow> heap \<Rightarrow> (retval \<times> heap) option" where
  "invoke r c h =
     (case deref h r of
        None \<Rightarrow> None
      | Some f \<Rightarrow>
          (case resolve (cls f) (method_of c) of
             Some Fiber \<Rightarrow> Fiber_method r c h
           | _ \<Rightarrow> None))"

text \<open>A sequence of calls on one object, in order; the return values are collected.\<close>

fun run :: "ref \<Rightarrow> call list \<Rightarrow> heap \<Rightarrow> (retval list \<times> heap) option" where
  "run r [] h = Some ([], h)"
| "run r (c # cs) h =
     (case invoke r c h of
        None \<Rightarrow> None
      | Some (v, h') \<Rightarrow>
          (case run r cs h' of
             None \<Rightarrow> None
           | Some (vs, h'') \<Rightarrow> Some (v # vs, h'')))"

fun is_transform :: "call \<Rightarrow> bool" where
  "is_transform (Transform typ col contxt) = True"
| "is_transform (AddMarker markerType) = False"
| "is_transform ExportLineage = False"

text \<open>
  The effect of one call on the receiver and the value it returns, without the store;
  the lemmas below show that \<open>invoke\<close> and \<open>run\<close> compute exactly these.
\<close>

fun apply_call :: "fiber \<Rightarrow> call \<Rightarrow> fiber" where
  "apply_call f (Transform typ col contxt) = Fiber_transform f typ col contxt"
| "apply_call f (AddMarker markerType) = Fiber_addMarker f markerType"
| "apply_call f ExportLineage = f"

fun return_of :: "ref \<Rightarrow> fiber \<Rightarrow> call \<Rightarrow> retval" where
  "return_of r f (Transform typ col contxt) = RetFiber r"
| "return_of r f (AddMarker markerType) = RetFiber r"
| "return_of r f ExportLineage = RetString (Fiber_exportLineage f)"

fun returns_of :: "ref \<Rightarrow> fiber \<Rightarrow> call list \<Rightarrow> retval list" where
  "returns_of r f [] = []"
| "returns_of r f (c # cs) = return_of r f c # returns_of r (apply_call f c) cs"

text \<open>The stage tag is the colour of the last history entry, and there is one.\<close>

definition tag_inv :: "fiber \<Rightarrow> bool" where
  "tag_inv f = (history f \<noteq> [] \<and> color f = entry_color (last (history f)))"

text \<open>
  The constructor's entry comes first and has no context property; every later entry
  has one.
\<close>

definition context_inv :: "fiber \<Rightarrow> bool" where
  "context_inv f =
     (history f \<noteq> []
      \<and> stage (hd (history f)) = ''start''
      \<and> entry_context (hd (history f)) = None
      \<and> list_all (\<lambda>e. entry_context e \<noteq> None) (tl (history f)))"

text \<open>The object a new expression creates, after a sequence of calls on it.\<close>

definition fiber_after :: "class_name \<Rightarrow> string \<Rightarrow> string option \<Rightarrow> heap \<Rightarrow> call list \<Rightarrow> fiber option" where
  "fiber_after c i colorStart h calls =
     (case new c i colorStart h of
        (r, h0) \<Rightarrow> (case run r calls h0 of None \<Rightarrow> None | Some (outs, h') \<Rightarrow> deref h' r))"

text \<open>The values the calls return, in order.\<close>

definition returns_after :: "class_name \<Rightarrow> string \<Rightarrow> string option \<Rightarrow> heap \<Rightarrow> call list \<Rightarrow> retval list option" where
  "returns_after c i colorStart h calls =
     (case new c i colorStart h of
        (r, h0) \<Rightarrow> map_option fst (run r calls h0))"

section \<open>Filtering content units (FiberCardViewer: filterFibers)\<close>

text \<open>
  The content unit of the card viewer (interface \<open>Fiber\<close> of the store hook; \<open>unit_id\<close>
  is its field \<open>id\<close>). The units arrive as parsed JSON, so a text field may be missing:
  \<open>None\<close> is an absent (undefined) property. Reading a method of an absent property
  throws a TypeError.
\<close>

datatype error = TypeError | ReadFailed string

record content_unit =
  unit_id :: string
  content :: "string option"
  tags :: "string option"
  created_at :: string
  source :: string

text \<open>
  \<open>String.prototype.toLowerCase\<close>. A character of the model is one code unit from
  U+0000 to U+00FF. In that range the capital letters are A to Z (U+0041 to U+005A) and
  U+00C0 to U+00DE without the multiplication sign U+00D7; the small letter of each is
  0x20 further on. Every other character is kept, and the result has the length of the
  argument.
\<close>

definition lower_char :: "char \<Rightarrow> char" where
  "lower_char c =
     (let n = (of_char c :: nat)
      in if (0x41 \<le> n \<and> n \<le> 0x5A) \<or> (0xC0 \<le> n \<and> n \<le> 0xDE \<and> n \<noteq> 0xD7)
         then char_of (n + 0x20)
         else c)"

definition toLowerCase :: "string \<Rightarrow> string" where
  "toLowerCase s = map lower_char s"

text \<open>
  The capital letters of that range and, at the same positions, their small letters,
  written out one by one.
\<close>

definition capital_letters :: string where
  "capital_letters = ''ABCDEFGHIJKLMNOPQRSTUVWXYZ''
     @ [CHR 0xC0, CHR 0xC1, CHR 0xC2, CHR 0xC3, CHR 0xC4, CHR 0xC5, CHR 0xC6, CHR 0xC7,
        CHR 0xC8, CHR 0xC9, CHR 0xCA, CHR 0xCB, CHR 0xCC, CHR 0xCD, CHR 0xCE, CHR 0xCF,
        CHR 0xD0, CHR 0xD1, CHR 0xD2, CHR 0xD3, CHR 0xD4, CHR 0xD5, CHR 0xD6,
        CHR 0xD8, CHR 0xD9, CHR 0xDA, CHR 0xDB, CHR 0xDC, CHR 0xDD, CHR 0xDE]"

definition small_letters :: string where
  "small_letters = ''abcdefghijklmnopqrstuvwxyz''
     @ [CHR 0xE0, CHR 0xE1, CHR 0xE2, CHR 0xE3, CHR 0xE4, CHR 0xE5, CHR 0xE6, CHR 0xE7,
        CHR 0xE8, CHR 0xE9, CHR 0xEA, CHR 0xEB, CHR 0xEC, CHR 0xED, CHR 0xEE, CHR 0xEF,
        CHR 0xF0, CHR 0xF1, CHR 0xF2, CHR 0xF3, CHR 0xF4, CHR 0xF5, CHR 0xF6,
        CHR 0xF8, CHR 0xF9, CHR 0xFA, CHR 0xFB, CHR 0xFC, CHR 0xFD, CHR 0xFE]"

text \<open>\<open>String.prototype.includes\<close>: the search string occurs at some position.\<close>

fun String_includes :: "string \<Rightarrow> string \<Rightarrow> bool" where
  "String_includes [] searchString = (searchString = [])"
| "String_includes (c # cs) searchString =
     (prefix searchString (c # cs) \<or> String_includes cs searchString)"

text \<open>
  The callback
  \<open>(f) => f.content.toLowerCase().includes(q) || (f.tags || '').toLowerCase().includes(q)\<close>.
  \<open>f.tags || ''\<close> is the empty string when \<open>tags\<close> is absent or empty.
\<close>

definition fiber_matches :: "string \<Rightarrow> content_unit \<Rightarrow> error + bool" where
  "fiber_matches q f =
     (case content f of
        None \<Rightarrow> Inl TypeError
      | Some c \<Rightarrow>
          Inr (String_includes (toLowerCase c) q
               \<or> String_includes (toLowerCase (case tags f of
                                           None \<Rightarrow> []
                                         | Some t \<Rightarrow> if t = [] then [] else t)) q))"

text \<open>\<open>Array.prototype.filter\<close>: elements in order; an exception of the callback ends the call.\<close>

fun Array_filter :: "('a \<Rightarrow> error + bool) \<Rightarrow> 'a list \<Rightarrow> error + 'a list" where
  "Array_filter p [] = Inr []"
| "Array_filter p (x # xs) =
     (case p x of
        Inl e \<Rightarrow> Inl e
      | Inr b \<Rightarrow>
          (case Array_filter p xs of
             Inl e \<Rightarrow> Inl e
           | Inr kept \<Rightarrow> Inr (if b then x # kept else kept)))"

definition filterFibers :: "content_unit list \<Rightarrow> string \<Rightarrow> error + content_unit list" where
  "filterFibers list query = (let q = toLowerCase query in Array_filter (fiber_matches q) list)"

text \<open>
  The two units of the repository's test of filterFibers, a unit without tags, and two
  units whose content has the capital letter U+00C9, one with tags and one without.
\<close>

definition hello_world :: content_unit where
  "hello_world = \<lparr> unit_id = ''1'', content = Some ''hello world'', tags = Some ''foo'',
                   created_at = [], source = [] \<rparr>"

definition another_note :: content_unit where
  "another_note = \<lparr> unit_id = ''2'', content = Some ''another note'', tags = Some ''bar'',
                    created_at = [], source = [] \<rparr>"

definition untagged_note :: content_unit where
  "untagged_note = \<lparr> unit_id = ''3'', content = Some ''Untagged Note'', tags = None,
                     created_at = [], source = [] \<rparr>"

definition cafe_menu :: content_unit where
  "cafe_menu = \<lparr> unit_id = ''4'', content = Some (''CAF'' @ [CHR 0xC9] @ '' menu''),
                 tags = Some ''drinks'', created_at = [], source = [] \<rparr>"

definition untagged_cafe :: content_unit where
  "untagged_cafe = \<lparr> unit_id = ''5'', content = Some (''CAF'' @ [CHR 0xC9]), tags = None,
                     created_at = [], source = [] \<rparr>"

section \<open>The transcription service (transcriptionService.ts)\<close>

text \<open>
  The types of whisperTypes.ts. \<open>seg_start\<close> and \<open>seg_end\<close> are the fields \<open>start\<close> and
  \<open>end\<close> of a segment, \<open>result_text\<close> is the field \<open>text\<close> of a result.
\<close>

datatype AudioFormat = Wav | Mp3 | Ogg

fun format_string :: "AudioFormat \<Rightarrow> string" where
  "format_string Wav = ''wav''"
| "format_string Mp3 = ''mp3''"
| "format_string Ogg = ''ogg''"

record TranscriptionSegment =
  seg_start :: int
  seg_end :: int

record TranscriptionResult =
  result_text :: string
  confidence :: int
  timestamps :: "TranscriptionSegment list"

text \<open>
  The decimal numeral of a length, as the template literal prints a number
  (lengths stay far below the range where a number prints with an exponent).
\<close>

definition digit_char :: "nat \<Rightarrow> char" where
  "digit_char n = ''0123456789'' ! (n mod 10)"

fun string_of_nat :: "nat \<Rightarrow> string" where
  "string_of_nat n =
     (if n < 10 then [digit_char n] else string_of_nat (n div 10) @ [digit_char (n mod 10)])"

declare string_of_nat.simps [simp del]

definition fakeTranscription :: "nat \<Rightarrow> TranscriptionResult" where
  "fakeTranscription dataLen =
     \<lparr> result_text = ''transcribed '' @ string_of_nat dataLen @ '' bytes'',
       confidence = 1,
       timestamps = [] \<rparr>"

text \<open>
  An ArrayBuffer is its list of bytes, a file system maps a path to the bytes of the
  file; a promise is its outcome: \<open>Inr\<close> the value it resolves to, \<open>Inl\<close> the rejection.
\<close>

type_synonym byte = "8 word"

definition transcribeAudioFile :: "(string \<rightharpoonup> byte list) \<Rightarrow> string \<Rightarrow> error + TranscriptionResult" where
  "transcribeAudioFile fs filePath =
     (case fs filePath of
        None \<Rightarrow> Inl (ReadFailed filePath)
      | Some buf \<Rightarrow> Inr (fakeTranscription (length buf)))"

definition transcribeRawAudio :: "byte list \<Rightarrow> AudioFormat \<Rightarrow> error + TranscriptionResult" where
  "transcribeRawAudio buffer format =
     (let len = length buffer + length (format_string format)
      in Inr (fakeTranscription len))"

section \<open>The store and the calls\<close>

lemma deref_alloc: "deref (snd (alloc h f)) (fst (alloc h f)) = Some f"
  by (simp add: deref_def alloc_def)

lemma deref_store_same: "r < length h \<Longrightarrow> deref (store h r f) r = Some f"
  by (simp add: deref_def store_def)

lemma deref_store_other: "r' \<noteq> r \<Longrightarrow> deref (store h r f) r' = deref h r'"
  by (simp add: deref_def store_def)

lemma length_store: "length (store h r f) = length h"
  by (simp add: store_def)

lemma deref_SomeD: "deref h r = Some f \<Longrightarrow> r < length h \<and> h ! r = f"
  by (simp add: deref_def split: if_splits)

lemma store_same: "deref h r = Some f \<Longrightarrow> store h r f = h"
  by (auto simp: deref_def store_def split: if_splits)

lemma store_store: "store (store h r f) r g = store h r g"
  by (simp add: store_def)

lemma resolve_Fiber: "resolve c m = Some Fiber"
  by (cases c; cases m) (simp_all add: resolve_def)

lemma invoke_eq:
  assumes "deref h r = Some f"
  shows "invoke r c h = Some (return_of r f c, store h r (apply_call f c))"
  using assms
  by (cases c)
     (simp_all add: invoke_def resolve_Fiber transform_def addMarker_def exportLineage_def
        store_same)

lemma run_eq:
  assumes "deref h r = Some f"
  shows "run r cs h = Some (returns_of r f cs, store h r (foldl apply_call f cs))"
  using assms
proof (induction cs arbitrary: h f)
  case Nil
  then show ?case by (simp add: store_same)
next
  case (Cons c cs)
  from Cons.prems have lt: "r < length h" by (simp add: deref_SomeD)
  have d: "deref (store h r (apply_call f c)) r = Some (apply_call f c)"
    using lt by (rule deref_store_same)
  show ?case
    by (simp add: invoke_eq [OF Cons.prems] Cons.IH [OF d] store_store)
qed

lemma fiber_after_eq:
  "fiber_after c i col h calls = Some (foldl apply_call (construct c i col) calls)"
  by (simp add: fiber_after_def new_def alloc_def run_eq [OF deref_alloc [unfolded alloc_def fst_conv snd_conv]]
      deref_store_same)


lemma returns_after_eq:
  "returns_after c i col h calls = Some (returns_of (length h) (construct c i col) calls)"
  by (simp add: returns_after_def new_def alloc_def
      run_eq [OF deref_alloc [unfolded alloc_def fst_conv snd_conv]])

lemma length_history_apply_call:
  "length (history (apply_call f c)) = length (history f) + (if is_transform c then 1 else 0)"
  by (cases c) (simp_all add: Fiber_transform_def Fiber_addMarker_def Let_def)

lemma length_history_foldl:
  "length (history (foldl apply_call f cs)) = length (history f) + length (filter is_transform cs)"
  by (induction cs arbitrary: f) (simp_all add: length_history_apply_call)

lemma prefix_history_apply_call: "prefix (history f) (history (apply_call f c))"
  by (cases c) (simp_all add: Fiber_transform_def Fiber_addMarker_def Let_def)

lemma prefix_history_foldl: "prefix (history f) (history (foldl apply_call f cs))"
proof (induction cs arbitrary: f)
  case Nil
  show ?case by simp
next
  case (Cons c cs)
  have "prefix (history f) (history (apply_call f c))"
    by (rule prefix_history_apply_call)
  also have "prefix (history (apply_call f c)) (history (foldl apply_call (apply_call f c) cs))"
    by (rule Cons.IH)
  finally show ?case by simp
qed

lemma tag_inv_construct: "tag_inv (construct c i col)"
  by (cases c) (simp_all add: tag_inv_def Fiber_constructor_def Let_def)

lemma tag_inv_apply_call: "tag_inv f \<Longrightarrow> tag_inv (apply_call f c)"
  by (cases c) (simp_all add: tag_inv_def Fiber_transform_def Fiber_addMarker_def Let_def)

lemma tag_inv_foldl: "tag_inv f \<Longrightarrow> tag_inv (foldl apply_call f cs)"
  by (induction cs arbitrary: f) (simp_all add: tag_inv_apply_call)

lemma length_history_construct: "length (history (construct c i col)) = 1"
  by (cases c) (simp_all add: Fiber_constructor_def Let_def)

lemma entry_json_inj: "entry_json e = entry_json e' \<Longrightarrow> e = e'"
  by (cases e; cases e') (auto simp: entry_json_def split: option.splits)

lemma map_entry_json_inj: "map entry_json xs = map entry_json ys \<Longrightarrow> xs = ys"
proof -
  have "inj entry_json"
    by (rule injI) (rule entry_json_inj)
  then show "map entry_json xs = map entry_json ys \<Longrightarrow> xs = ys"
    by (simp add: inj_map_eq_map)
qed

lemma map_JStr_inj: "map JStr xs = map JStr ys \<Longrightarrow> xs = ys"
proof -
  have "inj JStr"
    by (rule injI) simp
  then show "map JStr xs = map JStr ys \<Longrightarrow> xs = ys"
    by (simp add: inj_map_eq_map)
qed

lemma lineage_json_inj:
  "lineage_json g = lineage_json f \<Longrightarrow>
     fiber_id g = fiber_id f \<and> history g = history f \<and> markers g = markers f"
  by (auto simp: lineage_json_def dest: map_entry_json_inj map_JStr_inj)

section \<open>Subclasses, contexts and the exported text\<close>

lemma apply_call_cls_update: "apply_call (f\<lparr> cls := c \<rparr>) x = (apply_call f x)\<lparr> cls := c \<rparr>"
  by (cases x) (simp_all add: Fiber_transform_def Fiber_addMarker_def Let_def)

lemma foldl_apply_call_cls_update:
  "foldl apply_call (f\<lparr> cls := c \<rparr>) xs = (foldl apply_call f xs)\<lparr> cls := c \<rparr>"
  by (induction xs arbitrary: f) (simp_all add: apply_call_cls_update)

lemma return_of_cls_update: "return_of r (f\<lparr> cls := c \<rparr>) x = return_of r f x"
  by (cases x) (simp_all add: Fiber_exportLineage_def lineage_json_def)

lemma returns_of_cls_update: "returns_of r (f\<lparr> cls := c \<rparr>) xs = returns_of r f xs"
  by (induction xs arbitrary: f) (simp_all add: return_of_cls_update apply_call_cls_update)

lemma construct_cls_update: "construct c i col = (construct Fiber i col)\<lparr> cls := c \<rparr>"
  by (cases c) (simp_all add: Fiber_constructor_def Let_def)

lemma foldl_construct_cls:
  "foldl apply_call (construct c i col) calls
     = (foldl apply_call (construct Fiber i col) calls)\<lparr> cls := c \<rparr>"
proof -
  have "foldl apply_call (construct c i col) calls
          = foldl apply_call ((construct Fiber i col)\<lparr> cls := c \<rparr>) calls"
    by (simp only: construct_cls_update [symmetric])
  then show ?thesis
    by (simp only: foldl_apply_call_cls_update)
qed

lemma returns_of_construct_cls:
  "returns_of r (construct c i col) calls = returns_of r (construct Fiber i col) calls"
proof -
  have "returns_of r (construct c i col) calls
          = returns_of r ((construct Fiber i col)\<lparr> cls := c \<rparr>) calls"
    by (simp only: construct_cls_update [symmetric])
  then show ?thesis
    by (simp only: returns_of_cls_update)
qed

lemma context_inv_construct: "context_inv (construct c i col)"
  by (cases c) (simp_all add: context_inv_def Fiber_constructor_def Let_def)

lemma context_inv_apply_call: "context_inv f \<Longrightarrow> context_inv (apply_call f x)"
  by (cases x) (auto simp: context_inv_def Fiber_transform_def Fiber_addMarker_def Let_def)

lemma context_inv_foldl: "context_inv f \<Longrightarrow> context_inv (foldl apply_call f xs)"
  by (induction xs arbitrary: f) (simp_all add: context_inv_apply_call)

lemma sublist_join: "x \<in> set xs \<Longrightarrow> sublist x (join sep xs)"
proof (induction sep xs rule: join.induct)
  case (1 sep)
  then show ?case by simp
next
  case (2 sep y)
  then show ?case by simp
next
  case (3 sep y z zs)
  show ?case
  proof (cases "x = y")
    case True
    then show ?thesis by simp
  next
    case False
    with 3 have "sublist x (join sep (z # zs))" by simp
    then have "sublist x ((y @ sep) @ join sep (z # zs))"
      by (rule sublist_order.order_trans) (rule sublist_append_leftI)
    then show ?thesis by simp
  qed
qed

lemma sublist_mid: "sublist x y \<Longrightarrow> sublist x (a @ y @ b)"
  by (erule sublist_order.order_trans) (rule sublist_appendI)

lemma sublist_last: "sublist x (a @ b @ x)"
  using sublist_append_leftI [of x "a @ b"] by simp

lemma sublist_SerializeJSONProperty_JArr:
  assumes "x \<in> set xs"
  shows "sublist (SerializeJSONProperty (indent @ gap) x) (SerializeJSONProperty indent (JArr xs))"
proof -
  from assms have ne: "xs \<noteq> []" by auto
  from assms have "SerializeJSONProperty (indent @ gap) x
                     \<in> set (map (SerializeJSONProperty (indent @ gap)) xs)"
    by simp
  then have "sublist (SerializeJSONProperty (indent @ gap) x)
               (join ('','' @ [CHR 0x0A] @ (indent @ gap))
                  (map (SerializeJSONProperty (indent @ gap)) xs))"
    by (rule sublist_join)
  then have "sublist (SerializeJSONProperty (indent @ gap) x)
               ((''['' @ [CHR 0x0A] @ (indent @ gap))
                @ join ('','' @ [CHR 0x0A] @ (indent @ gap))
                    (map (SerializeJSONProperty (indent @ gap)) xs)
                @ ([CHR 0x0A] @ indent @ '']''))"
    by (rule sublist_mid)
  with ne show ?thesis by simp
qed

lemma sublist_SerializeJSONProperty_JObj:
  assumes "(k, v) \<in> set ms"
  shows "sublist (QuoteJSONString k @ '': '' @ SerializeJSONProperty (indent @ gap) v)
           (SerializeJSONProperty indent (JObj ms))"
proof -
  let ?member = "\<lambda>m. QuoteJSONString (fst m) @ '': '' @ SerializeJSONProperty (indent @ gap) (snd m)"
  from assms have ne: "ms \<noteq> []" by auto
  from assms have "?member (k, v) \<in> ?member ` set ms"
    by (rule imageI)
  then have "?member (k, v) \<in> set (map ?member ms)"
    by simp
  then have "sublist (?member (k, v)) (join ('','' @ [CHR 0x0A] @ (indent @ gap)) (map ?member ms))"
    by (rule sublist_join)
  then have "sublist (?member (k, v))
               ((''{'' @ [CHR 0x0A] @ (indent @ gap))
                @ join ('','' @ [CHR 0x0A] @ (indent @ gap)) (map ?member ms)
                @ ([CHR 0x0A] @ indent @ ''}''))"
    by (rule sublist_mid)
  with ne show ?thesis by simp
qed

lemma sublist_entry_in_export:
  assumes "e \<in> set (history f)"
  shows "sublist (SerializeJSONProperty (gap @ gap) (entry_json e)) (Fiber_exportLineage f)"
proof -
  let ?hist = "JArr (map entry_json (history f))"
  from assms have "entry_json e \<in> set (map entry_json (history f))"
    by simp
  then have "sublist (SerializeJSONProperty (gap @ gap) (entry_json e))
               (SerializeJSONProperty gap ?hist)"
    by (rule sublist_SerializeJSONProperty_JArr)
  also have "sublist (SerializeJSONProperty gap ?hist)
               (QuoteJSONString ''history'' @ '': '' @ SerializeJSONProperty gap ?hist)"
    by (rule sublist_last)
  also have "sublist (QuoteJSONString ''history'' @ '': '' @ SerializeJSONProperty gap ?hist)
               (SerializeJSONProperty [] (lineage_json f))"
    unfolding lineage_json_def
    by (rule sublist_SerializeJSONProperty_JObj [where indent = "[]", unfolded append_Nil]) simp
  finally show ?thesis
    by (simp only: Fiber_exportLineage_def JSON_stringify_def)
qed

lemma returns_of_snoc:
  "returns_of r f (xs @ [x]) = returns_of r f xs @ [return_of r (foldl apply_call f xs) x]"
  by (induction xs arbitrary: f) simp_all

lemma null_context_in_entry:
  "sublist (CHR 0x22 # ''context'' @ CHR 0x22 # '': null'')
     (SerializeJSONProperty indent
        (entry_json \<lparr> stage = typ, entry_color = col, entry_context = Some JNull \<rparr>))"
proof -
  let ?e = "\<lparr> stage = typ, entry_color = col, entry_context = Some JNull \<rparr>"
  have obj: "entry_json ?e
               = JObj [(''stage'', JStr typ), (''color'', JStr col), (''context'', JNull)]"
    by (simp add: entry_json_def)
  have "sublist (QuoteJSONString ''context'' @ '': '' @ SerializeJSONProperty (indent @ gap) JNull)
          (SerializeJSONProperty indent
             (JObj [(''stage'', JStr typ), (''color'', JStr col), (''context'', JNull)]))"
    by (rule sublist_SerializeJSONProperty_JObj) simp
  moreover have "QuoteJSONString ''context'' @ '': '' @ SerializeJSONProperty (indent @ gap) JNull
                   = CHR 0x22 # ''context'' @ CHR 0x22 # '': null''"
    by (simp add: QuoteJSONString_def escape_char_def)
  ultimately show ?thesis
    by (simp only: obj)
qed

section \<open>The exported text determines the value\<close>

text \<open>
  An escape is the character itself, a backslash and one letter, or the six characters
  of a \<open>u\<close> escape; no escape begins with a double quote. So a quoted string, and
  with it every serialised value, can be read back in one way only.
\<close>

lemma hex_digit_inj: "hex_digit a = hex_digit b \<Longrightarrow> a mod 16 = b mod 16"
proof -
  assume eq: "hex_digit a = hex_digit b"
  have d: "distinct ''0123456789abcdef''" by simp
  have la: "a mod 16 < length ''0123456789abcdef''" and lb: "b mod 16 < length ''0123456789abcdef''"
    by simp_all
  from eq have "''0123456789abcdef'' ! (a mod 16) = ''0123456789abcdef'' ! (b mod 16)"
    by (simp only: hex_digit_def)
  with nth_eq_iff_index_eq [OF d la lb] show ?thesis
    by simp
qed

lemma escape_char_shape:
  "(escape_char c = [c] \<and> c \<noteq> CHR 0x22 \<and> c \<noteq> CHR 0x5C)
   \<or> (\<exists>x. escape_char c = [CHR 0x5C, x] \<and> x \<noteq> CHR ''u'')
   \<or> (\<exists>h1 h2. escape_char c = [CHR 0x5C, CHR ''u'', CHR ''0'', CHR ''0'', h1, h2])"
  by (simp add: escape_char_def)

lemma control_char_inj:
  assumes "(of_char c :: nat) < 0x20" and "(of_char d :: nat) < 0x20"
    and hi: "hex_digit (of_char c div 16) = hex_digit (of_char d div 16)"
    and lo: "hex_digit (of_char c) = hex_digit (of_char d)"
  shows "c = d"
proof -
  let ?n = "of_char c :: nat" and ?m = "of_char d :: nat"
  have small: "?n div 16 < 16" "?m div 16 < 16"
    using assms(1,2) by (simp_all add: less_mult_imp_div_less)
  from hi have "(?n div 16) mod 16 = (?m div 16) mod 16"
    by (rule hex_digit_inj)
  with small have d: "?n div 16 = ?m div 16"
    by simp
  from lo have m: "?n mod 16 = ?m mod 16"
    by (rule hex_digit_inj)
  have "?n = ?n div 16 * 16 + ?n mod 16"
    by simp
  also have "\<dots> = ?m div 16 * 16 + ?m mod 16"
    by (simp only: d m)
  also have "\<dots> = ?m"
    by simp
  finally show ?thesis
    by simp
qed

lemma escape_char_plainD: "escape_char c = [x] \<Longrightarrow> c = x"
  by (simp add: escape_char_def split: if_splits)

lemma escape_char_shortD:
  "escape_char c = [CHR 0x5C, x] \<Longrightarrow>
     c = (if x = CHR ''b'' then CHR 0x08 else if x = CHR ''t'' then CHR 0x09
          else if x = CHR ''n'' then CHR 0x0A else if x = CHR ''f'' then CHR 0x0C
          else if x = CHR ''r'' then CHR 0x0D else x)"
  by (auto simp: escape_char_def split: if_splits)

lemma escape_char_longD:
  "escape_char c = [CHR 0x5C, CHR ''u'', CHR ''0'', CHR ''0'', h1, h2] \<Longrightarrow>
     (of_char c :: nat) < 0x20 \<and> h1 = hex_digit (of_char c div 16) \<and> h2 = hex_digit (of_char c)"
  by (simp add: escape_char_def split: if_splits)

lemma escape_char_inj:
  assumes "escape_char c = escape_char d"
  shows "c = d"
proof -
  consider (plain) "escape_char c = [c]"
    | (short) x where "escape_char c = [CHR 0x5C, x]"
    | (long) h1 h2 where "escape_char c = [CHR 0x5C, CHR ''u'', CHR ''0'', CHR ''0'', h1, h2]"
    using escape_char_shape [of c] by blast
  then show ?thesis
  proof cases
    case plain
    with assms have "escape_char d = [c]" by simp
    then have "d = c" by (rule escape_char_plainD)
    then show ?thesis by simp
  next
    case (short x)
    with assms have "escape_char d = [CHR 0x5C, x]" by simp
    from escape_char_shortD [OF short] escape_char_shortD [OF this] show ?thesis
      by simp
  next
    case (long h1 h2)
    with assms have "escape_char d = [CHR 0x5C, CHR ''u'', CHR ''0'', CHR ''0'', h1, h2]" by simp
    from escape_char_longD [OF long] escape_char_longD [OF this]
    have "(of_char c :: nat) < 0x20" "(of_char d :: nat) < 0x20"
      "hex_digit (of_char c div 16) = hex_digit (of_char d div 16)"
      "hex_digit (of_char c) = hex_digit (of_char d)"
      by simp_all
    then show ?thesis
      by (rule control_char_inj)
  qed
qed

lemma escape_char_prefix_free:
  assumes "escape_char c @ r = escape_char d @ r'"
  shows "c = d \<and> r = r'"
proof -
  have "escape_char c = escape_char d \<and> r = r'"
    using escape_char_shape [of c] escape_char_shape [of d] assms
    by (elim disjE conjE exE) simp_all
  then show ?thesis
    by (simp add: escape_char_inj)
qed

lemma escape_char_not_quote: "escape_char c @ r \<noteq> CHR 0x22 # r'"
  using escape_char_shape [of c] by (elim disjE conjE exE) simp_all

lemma escaped_prefix_free:
  assumes "concat (map escape_char s) @ CHR 0x22 # r = concat (map escape_char s') @ CHR 0x22 # r'"
  shows "s = s' \<and> r = r'"
  using assms
proof (induction s arbitrary: s')
  case Nil
  show ?case
  proof (cases s')
    case Nil
    with Nil.prems show ?thesis by simp
  next
    case (Cons d ds)
    with Nil.prems have "escape_char d @ (concat (map escape_char ds) @ CHR 0x22 # r') = CHR 0x22 # r"
      by simp
    then show ?thesis
      by (simp add: escape_char_not_quote)
  qed
next
  case (Cons c cs)
  show ?case
  proof (cases s')
    case Nil
    with Cons.prems have "escape_char c @ (concat (map escape_char cs) @ CHR 0x22 # r) = CHR 0x22 # r'"
      by simp
    then show ?thesis
      by (simp add: escape_char_not_quote)
  next
    case (Cons d ds)
    with Cons.prems have
      "escape_char c @ (concat (map escape_char cs) @ CHR 0x22 # r)
         = escape_char d @ (concat (map escape_char ds) @ CHR 0x22 # r')"
      by simp
    then have "c = d" and
      "concat (map escape_char cs) @ CHR 0x22 # r = concat (map escape_char ds) @ CHR 0x22 # r'"
      by (auto dest: escape_char_prefix_free)
    with Cons.IH [of ds] Cons show ?thesis
      by simp
  qed
qed

lemma QuoteJSONString_prefix_free:
  assumes "QuoteJSONString s @ r = QuoteJSONString s' @ r'"
  shows "s = s' \<and> r = r'"
proof -
  from assms have "concat (map escape_char s) @ CHR 0x22 # r
                     = concat (map escape_char s') @ CHR 0x22 # r'"
    by (simp add: QuoteJSONString_def)
  then show ?thesis
    by (rule escaped_prefix_free)
qed

lemma join_prefix_free:
  assumes elem: "\<And>x y r r'. x \<in> set xs \<Longrightarrow> f x @ r = f y @ r' \<Longrightarrow> x = y \<and> r = r'"
    and "xs \<noteq> []" and "ys \<noteq> []"
    and "join (CHR '','' # sep) (map f xs) @ CHR 0x0A # r
           = join (CHR '','' # sep) (map f ys) @ CHR 0x0A # r'"
  shows "xs = ys \<and> r = r'"
  using assms
proof (induction xs arbitrary: ys)
  case Nil
  then show ?case by simp
next
  case (Cons x xs)
  from Cons.prems(3) obtain y ys' where ys: "ys = y # ys'"
    by (cases ys) auto
  have head: "f x @ t = f y @ t' \<Longrightarrow> x = y \<and> t = t'" for t t'
    by (rule Cons.prems(1)) simp_all
  show ?case
  proof (cases xs)
    case Nil
    note xs = Nil
    show ?thesis
    proof (cases ys')
      case Nil
      with xs ys Cons.prems(4) have "f x @ CHR 0x0A # r = f y @ CHR 0x0A # r'"
        by simp
      from head [OF this] xs ys Nil show ?thesis
        by simp
    next
      case (Cons y2 ys2)
      with xs ys Cons.prems(4) have
        "f x @ CHR 0x0A # r = f y @ (CHR '','' # sep) @ join (CHR '','' # sep) (map f (y2 # ys2)) @ CHR 0x0A # r'"
        by simp
      from head [OF this] show ?thesis
        by simp
    qed
  next
    case (Cons x2 xs2)
    note xs = Cons
    show ?thesis
    proof (cases ys')
      case Nil
      with xs ys Cons.prems(4) have
        "f x @ (CHR '','' # sep) @ join (CHR '','' # sep) (map f (x2 # xs2)) @ CHR 0x0A # r
           = f y @ CHR 0x0A # r'"
        by simp
      from head [OF this] show ?thesis
        by simp
    next
      case (Cons y2 ys2)
      with xs ys Cons.prems(4) have
        "f x @ (CHR '','' # sep) @ join (CHR '','' # sep) (map f (x2 # xs2)) @ CHR 0x0A # r
           = f y @ (CHR '','' # sep) @ join (CHR '','' # sep) (map f (y2 # ys2)) @ CHR 0x0A # r'"
        by simp
      from head [OF this] have xy: "x = y" and
        rest: "join (CHR '','' # sep) (map f xs) @ CHR 0x0A # r
                 = join (CHR '','' # sep) (map f ys') @ CHR 0x0A # r'"
        using xs Cons by simp_all
      have "xs = ys' \<and> r = r'"
      proof (rule Cons.IH [OF _ _ _ rest])
        show "\<And>x y r r'. x \<in> set xs \<Longrightarrow> f x @ r = f y @ r' \<Longrightarrow> x = y \<and> r = r'"
          by (rule Cons.prems(1)) simp_all
        show "xs \<noteq> []" using xs by simp
        show "ys' \<noteq> []" using Cons by simp
      qed
      with xy ys show ?thesis
        by simp
    qed
  qed
qed

lemma QuoteJSONString_first: "\<exists>t. QuoteJSONString s = CHR 0x22 # t"
  by (simp add: QuoteJSONString_def)

lemma SerializeJSONProperty_first:
  "\<exists>t. SerializeJSONProperty indent v
         = (case v of JNull \<Rightarrow> CHR ''n'' | JBool b \<Rightarrow> (if b then CHR ''t'' else CHR ''f'')
              | JStr s \<Rightarrow> CHR 0x22 | JArr xs \<Rightarrow> CHR ''['' | JObj ms \<Rightarrow> CHR ''{'') # t"
  by (cases v) (simp_all add: QuoteJSONString_def)

lemma SerializeJSONProperty_prefix_free:
  "SerializeJSONProperty indent v @ r = SerializeJSONProperty indent v' @ r'
     \<Longrightarrow> v = v' \<and> r = r'"
proof (induction v arbitrary: indent v' r r')
  case JNull
  from SerializeJSONProperty_first [of indent v'] JNull.prems show ?case
    by (cases v') (auto split: if_splits)
next
  case (JBool b)
  from SerializeJSONProperty_first [of indent v'] JBool.prems show ?case
    by (cases v') (auto split: if_splits)
next
  case (JStr s)
  show ?case
  proof (cases v')
    case (JStr s')
    with JStr.prems have "QuoteJSONString s @ r = QuoteJSONString s' @ r'"
      by simp
    then have "s = s' \<and> r = r'"
      by (rule QuoteJSONString_prefix_free)
    with JStr show ?thesis by simp
  qed (use SerializeJSONProperty_first [of indent v'] QuoteJSONString_first [of s] JStr.prems
       in \<open>auto split: if_splits\<close>)
next
  case (JArr xs)
  show ?case
  proof (cases v')
    case (JArr ys)
    show ?thesis
    proof (cases "xs = []")
      case True
      with JArr JArr.prems show ?thesis
        by (auto split: if_splits)
    next
      case False
      note xs = False
      show ?thesis
      proof (cases "ys = []")
        case True
        with xs JArr JArr.prems show ?thesis
          by (auto split: if_splits)
      next
        case False
        let ?f = "SerializeJSONProperty (indent @ gap)"
        from xs False JArr JArr.prems have
          "join (CHR '','' # CHR 0x0A # indent @ gap) (map ?f xs) @ CHR 0x0A # (indent @ '']'' @ r)
             = join (CHR '','' # CHR 0x0A # indent @ gap) (map ?f ys) @ CHR 0x0A # (indent @ '']'' @ r')"
          by simp
        then have "xs = ys \<and> indent @ '']'' @ r = indent @ '']'' @ r'"
          by (rule join_prefix_free [OF JArr.IH xs False, rotated 2]) assumption+
        with JArr show ?thesis by simp
      qed
    qed
  qed (use SerializeJSONProperty_first [of indent v'] JArr.prems in \<open>auto split: if_splits\<close>)
next
  case (JObj ms)
  show ?case
  proof (cases v')
    case (JObj ns)
    let ?f = "\<lambda>m. QuoteJSONString (fst m) @ '': '' @ SerializeJSONProperty (indent @ gap) (snd m)"
    have member: "m = n \<and> t = t'" if "m \<in> set ms" and "?f m @ t = ?f n @ t'" for m n t t'
    proof -
      from that(2) have
        "QuoteJSONString (fst m) @ ('': '' @ SerializeJSONProperty (indent @ gap) (snd m) @ t)
           = QuoteJSONString (fst n) @ ('': '' @ SerializeJSONProperty (indent @ gap) (snd n) @ t')"
        by simp
      then have k: "fst m = fst n" and
        "'': '' @ SerializeJSONProperty (indent @ gap) (snd m) @ t
           = '': '' @ SerializeJSONProperty (indent @ gap) (snd n) @ t'"
        by (auto dest: QuoteJSONString_prefix_free)
      then have eq: "SerializeJSONProperty (indent @ gap) (snd m) @ t
                       = SerializeJSONProperty (indent @ gap) (snd n) @ t'"
        by simp
      have sn: "snd m \<in> Basic_BNFs.snds m"
        by (cases m) simp
      have "snd m = snd n \<and> t = t'"
        by (rule JObj.IH [OF that(1) sn eq])
      with k show ?thesis
        by (simp add: prod_eq_iff)
    qed
    show ?thesis
    proof (cases "ms = []")
      case True
      with JObj JObj.prems show ?thesis
        by (auto split: if_splits)
    next
      case False
      note ms = False
      show ?thesis
      proof (cases "ns = []")
        case True
        with ms JObj JObj.prems show ?thesis
          by (auto split: if_splits)
      next
        case False
        from ms False JObj JObj.prems have
          "join (CHR '','' # CHR 0x0A # indent @ gap) (map ?f ms) @ CHR 0x0A # (indent @ ''}'' @ r)
             = join (CHR '','' # CHR 0x0A # indent @ gap) (map ?f ns) @ CHR 0x0A # (indent @ ''}'' @ r')"
          by simp
        then have "ms = ns \<and> indent @ ''}'' @ r = indent @ ''}'' @ r'"
          by (rule join_prefix_free [OF member ms False, rotated 2]) assumption+
        with JObj show ?thesis by simp
      qed
    qed
  qed (use SerializeJSONProperty_first [of indent v'] JObj.prems in \<open>auto split: if_splits\<close>)
qed

lemma JSON_stringify_inj: "JSON_stringify v = JSON_stringify v' \<Longrightarrow> v = v'"
proof -
  assume "JSON_stringify v = JSON_stringify v'"
  then have "SerializeJSONProperty [] v @ [] = SerializeJSONProperty [] v' @ []"
    by (simp add: JSON_stringify_def)
  then have "v = v' \<and> ([] :: string) = []"
    by (rule SerializeJSONProperty_prefix_free)
  then show ?thesis by simp
qed

lemma Fiber_exportLineage_inj:
  assumes "Fiber_exportLineage g = Fiber_exportLineage f"
  shows "fiber_id g = fiber_id f \<and> history g = history f \<and> markers g = markers f"
proof -
  from assms have "JSON_stringify (lineage_json g) = JSON_stringify (lineage_json f)"
    by (simp only: Fiber_exportLineage_def)
  then have "lineage_json g = lineage_json f"
    by (rule JSON_stringify_inj)
  then show ?thesis
    by (rule lineage_json_inj)
qed

lemma sublist_id_in_export: "sublist (QuoteJSONString (fiber_id f)) (Fiber_exportLineage f)"
proof -
  have "sublist (QuoteJSONString (fiber_id f))
          (QuoteJSONString ''id'' @ '': '' @ SerializeJSONProperty gap (JStr (fiber_id f)))"
    using sublist_last [of "QuoteJSONString (fiber_id f)" "QuoteJSONString ''id''" "'': ''"]
    by simp
  also have "sublist (QuoteJSONString ''id'' @ '': '' @ SerializeJSONProperty gap (JStr (fiber_id f)))
               (SerializeJSONProperty [] (lineage_json f))"
    unfolding lineage_json_def
    by (rule sublist_SerializeJSONProperty_JObj [where indent = "[]", unfolded append_Nil]) simp
  finally show ?thesis
    by (simp only: Fiber_exportLineage_def JSON_stringify_def)
qed

lemma sublist_marker_in_export:
  assumes "m \<in> set (markers f)"
  shows "sublist (QuoteJSONString m) (Fiber_exportLineage f)"
proof -
  let ?marks = "JArr (map JStr (markers f))"
  from assms have "JStr m \<in> set (map JStr (markers f))"
    by simp
  then have "sublist (SerializeJSONProperty (gap @ gap) (JStr m)) (SerializeJSONProperty gap ?marks)"
    by (rule sublist_SerializeJSONProperty_JArr)
  then have "sublist (QuoteJSONString m) (SerializeJSONProperty gap ?marks)"
    by simp
  also have "sublist (SerializeJSONProperty gap ?marks)
               (QuoteJSONString ''markers'' @ '': '' @ SerializeJSONProperty gap ?marks)"
    by (rule sublist_last)
  also have "sublist (QuoteJSONString ''markers'' @ '': '' @ SerializeJSONProperty gap ?marks)
               (SerializeJSONProperty [] (lineage_json f))"
    unfolding lineage_json_def
    by (rule sublist_SerializeJSONProperty_JObj [where indent = "[]", unfolded append_Nil]) simp
  finally show ?thesis
    by (simp only: Fiber_exportLineage_def JSON_stringify_def)
qed

section \<open>Creation\<close>

text \<open>
  Claim C3. For every id and initial label, and whatever the store holds already,
  \<open>create\<close> returns a reference to a new Fiber whose history is exactly the one entry
  \<open>{stage: "start", color: initial_label}\<close>, whose colour (stage tag) is the initial
  label, whose id is the given id and whose markers are empty. Creation has no failing
  branch: the result is always a live reference to such an object, and the objects
  already in the store stay as they are.
\<close>

theorem create_initial_state:
  "\<exists>r h' f. create i l h = (r, h')
     \<and> deref h r = None
     \<and> deref h' r = Some f
     \<and> f = \<lparr> cls = Fiber, fiber_id = i, color = l,
              history = [\<lparr> stage = ''start'', entry_color = l, entry_context = None \<rparr>],
              markers = [] \<rparr>
     \<and> length (history f) = 1
     \<and> take (length h) h' = h"
  by (simp add: create_def new_def alloc_def deref_def Fiber_constructor_def)

section \<open>The history of a Fiber\<close>

text \<open>
  Claim C1. Take a Fiber of any of the three classes, created with any id and with or
  without a start colour in any store, and any finite sequence of transform, addMarker
  and exportLineage calls on it. Every call returns, and afterwards the history is not
  empty, its length is one plus the number of transform calls made, and the colour
  (stage tag) is the colour of the last history entry. The history after the first
  \<open>k\<close> calls is a prefix of the history after all of them, so entries are never
  altered, reordered or removed and the length never decreases.
\<close>

theorem history_invariant:
  "\<exists>f g. fiber_after c i col h calls = Some f
     \<and> history f \<noteq> []
     \<and> length (history f) = 1 + length (filter is_transform calls)
     \<and> color f = entry_color (last (history f))
     \<and> fiber_after c i col h (take k calls) = Some g
     \<and> prefix (history g) (history f)
     \<and> length (history g) \<le> length (history f)"
proof -
  let ?start = "construct c i col"
  let ?f = "foldl apply_call ?start calls"
  let ?g = "foldl apply_call ?start (take k calls)"
  have "foldl apply_call ?start (take k calls @ drop k calls) = foldl apply_call ?g (drop k calls)"
    by (simp only: foldl_append)
  then have split: "?f = foldl apply_call ?g (drop k calls)"
    by (simp only: append_take_drop_id)
  have inv: "tag_inv ?f"
    by (rule tag_inv_foldl [OF tag_inv_construct])
  have len: "length (history ?f) = 1 + length (filter is_transform calls)"
    by (simp only: length_history_foldl length_history_construct)
  have "prefix (history ?g) (history (foldl apply_call ?g (drop k calls)))"
    by (rule prefix_history_foldl)
  then have pre: "prefix (history ?g) (history ?f)"
    by (simp only: split [symmetric])
  have le: "length (history ?g) \<le> length (history ?f)"
    using pre by (rule prefix_length_le)
  have f: "fiber_after c i col h calls = Some ?f"
    by (rule fiber_after_eq)
  have g: "fiber_after c i col h (take k calls) = Some ?g"
    by (rule fiber_after_eq)
  from inv have ne: "history ?f \<noteq> []" and tag: "color ?f = entry_color (last (history ?f))"
    by (simp_all add: tag_inv_def)
  from f ne len tag g pre le show ?thesis
    by blast
qed


section \<open>transform\<close>

text \<open>
  Claim C2. For every Fiber in the store and all arguments, transform returns the
  reference it was called on and never fails; in the store it leaves, the Fiber has the
  old history followed by exactly one new entry \<open>{stage, color, context}\<close> (with
  \<open>null\<close> as context when the argument was omitted), its colour (stage tag) is the new
  colour, its markers, id and class are unchanged, and every other object is unchanged.
\<close>

theorem transform_effect:
  assumes "deref h r = Some f"
  shows "\<exists>h' f'. transform r typ col contxt h = Some (r, h')
           \<and> deref h' r = Some f'
           \<and> history f' = history f @
                 [\<lparr> stage = typ, entry_color = col,
                    entry_context = Some (case contxt of None \<Rightarrow> JNull | Some v \<Rightarrow> v) \<rparr>]
           \<and> butlast (history f') = history f
           \<and> length (history f') = length (history f) + 1
           \<and> color f' = col
           \<and> markers f' = markers f
           \<and> fiber_id f' = fiber_id f
           \<and> cls f' = cls f
           \<and> length h' = length h
           \<and> (\<forall>r'. r' \<noteq> r \<longrightarrow> deref h' r' = deref h r')"
proof -
  let ?f' = "Fiber_transform f typ col contxt"
  let ?h' = "store h r ?f'"
  from assms have lt: "r < length h" by (simp add: deref_SomeD)
  have call: "transform r typ col contxt h = Some (r, ?h')"
    using assms by (simp add: transform_def)
  have obj: "deref ?h' r = Some ?f'"
    using lt by (rule deref_store_same)
  have fields: "history ?f' = history f @
                 [\<lparr> stage = typ, entry_color = col,
                    entry_context = Some (case contxt of None \<Rightarrow> JNull | Some v \<Rightarrow> v) \<rparr>]"
    "color ?f' = col" "markers ?f' = markers f" "fiber_id ?f' = fiber_id f" "cls ?f' = cls f"
    by (simp_all add: Fiber_transform_def Let_def)
  have rest: "butlast (history ?f') = history f" "length (history ?f') = length (history f) + 1"
    by (simp_all add: fields(1))
  have frame: "length ?h' = length h" "\<forall>r'. r' \<noteq> r \<longrightarrow> deref ?h' r' = deref h r'"
    by (simp_all add: length_store deref_store_other)
  from call obj fields rest frame show ?thesis
    by blast
qed

theorem transform_effect_witness:
  "deref [construct Fiber ''f0'' None] 0 = Some (construct Fiber ''f0'' None)
   \<and> (\<exists>h' f'. transform 0 ''spin'' ''lightgreen'' None [construct Fiber ''f0'' None] = Some (0, h')
           \<and> deref h' 0 = Some f'
           \<and> history f' = history (construct Fiber ''f0'' None) @
                 [\<lparr> stage = ''spin'', entry_color = ''lightgreen'', entry_context = Some JNull \<rparr>]
           \<and> color f' = ''lightgreen''
           \<and> markers f' = markers (construct Fiber ''f0'' None))"
proof -
  have live: "deref [construct Fiber ''f0'' None] 0 = Some (construct Fiber ''f0'' None)"
    by (simp add: deref_def)
  from transform_effect [OF live, of "''spin''" "''lightgreen''" None]
  obtain h' f' where
    "transform 0 ''spin'' ''lightgreen'' None [construct Fiber ''f0'' None] = Some (0, h')"
    "deref h' 0 = Some f'"
    "history f' = history (construct Fiber ''f0'' None) @
       [\<lparr> stage = ''spin'', entry_color = ''lightgreen'',
          entry_context = Some (case None of None \<Rightarrow> JNull | Some v \<Rightarrow> v) \<rparr>]"
    "color f' = ''lightgreen''"
    "markers f' = markers (construct Fiber ''f0'' None)"
    by blast
  with live show ?thesis
    by simp
qed

section \<open>addMarker\<close>

text \<open>
  Claim C5. For every Fiber in the store and every marker, addMarker returns the
  reference it was called on and never fails; the marker is appended to the markers,
  and history, colour (stage tag) and id are unchanged. Markers are not deduplicated:
  a second call with the same marker appends it a second time.
\<close>

theorem addMarker_effect:
  assumes "deref h r = Some f"
  shows "\<exists>h' f'. addMarker r m h = Some (r, h')
           \<and> deref h' r = Some f'
           \<and> markers f' = markers f @ [m]
           \<and> history f' = history f \<and> color f' = color f \<and> fiber_id f' = fiber_id f
           \<and> (\<exists>h'' f''. addMarker r m h' = Some (r, h'')
                 \<and> deref h'' r = Some f''
                 \<and> markers f'' = markers f @ [m, m]
                 \<and> history f'' = history f \<and> color f'' = color f \<and> fiber_id f'' = fiber_id f)"
proof -
  let ?f' = "Fiber_addMarker f m"
  let ?h' = "store h r ?f'"
  let ?f'' = "Fiber_addMarker ?f' m"
  let ?h'' = "store ?h' r ?f''"
  from assms have lt: "r < length h" by (simp add: deref_SomeD)
  have obj1: "deref ?h' r = Some ?f'"
    using lt by (rule deref_store_same)
  have call1: "addMarker r m h = Some (r, ?h')"
    using assms by (simp add: addMarker_def)
  have call2: "addMarker r m ?h' = Some (r, ?h'')"
    using obj1 by (simp add: addMarker_def)
  have obj2: "deref ?h'' r = Some ?f''"
    using lt by (simp add: deref_store_same length_store)
  have fields1: "markers ?f' = markers f @ [m]" "history ?f' = history f"
    "color ?f' = color f" "fiber_id ?f' = fiber_id f"
    by (simp_all add: Fiber_addMarker_def)
  have fields2: "markers ?f'' = markers f @ [m, m]" "history ?f'' = history f"
    "color ?f'' = color f" "fiber_id ?f'' = fiber_id f"
    by (simp_all add: Fiber_addMarker_def)
  from call1 obj1 fields1 call2 obj2 fields2 show ?thesis
    by blast
qed

theorem addMarker_effect_witness:
  "deref [construct Fiber ''f0'' None] 0 = Some (construct Fiber ''f0'' None)
   \<and> (\<exists>h' f'. addMarker 0 ''violet'' [construct Fiber ''f0'' None] = Some (0, h')
           \<and> deref h' 0 = Some f'
           \<and> markers f' = [''violet'']
           \<and> (\<exists>h'' f''. addMarker 0 ''violet'' h' = Some (0, h'')
                 \<and> deref h'' 0 = Some f''
                 \<and> markers f'' = [''violet'', ''violet'']
                 \<and> history f'' = history (construct Fiber ''f0'' None)))"
proof -
  have live: "deref [construct Fiber ''f0'' None] 0 = Some (construct Fiber ''f0'' None)"
    by (simp add: deref_def)
  have none: "markers (construct Fiber ''f0'' None) = []"
    by (simp add: Fiber_constructor_def Let_def)
  from addMarker_effect [OF live, of "''violet''"]
  obtain h' f' h'' f'' where
    "addMarker 0 ''violet'' [construct Fiber ''f0'' None] = Some (0, h')"
    "deref h' 0 = Some f'"
    "markers f' = markers (construct Fiber ''f0'' None) @ [''violet'']"
    "addMarker 0 ''violet'' h' = Some (0, h'')"
    "deref h'' 0 = Some f''"
    "markers f'' = markers (construct Fiber ''f0'' None) @ [''violet'', ''violet'']"
    "history f'' = history (construct Fiber ''f0'' None)"
    by blast
  with live none show ?thesis
    by simp
qed

section \<open>exportLineage\<close>

text \<open>
  Claim C6. For every Fiber in the store, exportLineage returns a string and leaves the
  store exactly as it was (so id, colour, history and markers of the Fiber are
  unchanged); a second call right after the first returns the same string. The string
  is the serialisation of the object with the members id, history and markers. It
  contains the quoted id, the serialisation of every history entry and every quoted
  marker, and it determines all three: a Fiber, in any store, whose exportLineage
  returns the same string has the same id, the same history and the same markers.
\<close>

theorem exportLineage_pure:
  assumes "deref h r = Some f"
  shows "\<exists>s h'. exportLineage r h = Some (s, h')
           \<and> h' = h
           \<and> deref h' r = Some f
           \<and> exportLineage r h' = Some (s, h')
           \<and> s = JSON_stringify
                   (JObj [(''id'', JStr (fiber_id f)),
                          (''history'', JArr (map entry_json (history f))),
                          (''markers'', JArr (map JStr (markers f)))])
           \<and> (\<forall>g. lineage_json g = lineage_json f \<longrightarrow>
                  fiber_id g = fiber_id f \<and> history g = history f \<and> markers g = markers f)
           \<and> (\<forall>h2 r2 g. deref h2 r2 = Some g \<and> exportLineage r2 h2 = Some (s, h2) \<longrightarrow>
                  fiber_id g = fiber_id f \<and> history g = history f \<and> markers g = markers f)
           \<and> sublist (QuoteJSONString (fiber_id f)) s
           \<and> (\<forall>e \<in> set (history f). sublist (SerializeJSONProperty (gap @ gap) (entry_json e)) s)
           \<and> (\<forall>m \<in> set (markers f). sublist (QuoteJSONString m) s)"
proof -
  let ?s = "Fiber_exportLineage f"
  have call: "exportLineage r h = Some (?s, h)"
    using assms by (simp add: exportLineage_def)
  have out: "?s = JSON_stringify
                   (JObj [(''id'', JStr (fiber_id f)),
                          (''history'', JArr (map entry_json (history f))),
                          (''markers'', JArr (map JStr (markers f)))])"
    by (simp add: Fiber_exportLineage_def lineage_json_def)
  have inj: "\<forall>g. lineage_json g = lineage_json f \<longrightarrow>
                  fiber_id g = fiber_id f \<and> history g = history f \<and> markers g = markers f"
    by (blast dest: lineage_json_inj)
  have text_inj: "\<forall>h2 r2 g. deref h2 r2 = Some g \<and> exportLineage r2 h2 = Some (?s, h2) \<longrightarrow>
                  fiber_id g = fiber_id f \<and> history g = history f \<and> markers g = markers f"
  proof (intro allI impI)
    fix h2 r2 g
    assume "deref h2 r2 = Some g \<and> exportLineage r2 h2 = Some (?s, h2)"
    then have "Fiber_exportLineage g = Fiber_exportLineage f"
      by (auto simp: exportLineage_def)
    then show "fiber_id g = fiber_id f \<and> history g = history f \<and> markers g = markers f"
      by (rule Fiber_exportLineage_inj)
  qed
  have parts: "sublist (QuoteJSONString (fiber_id f)) ?s"
    "\<forall>e \<in> set (history f). sublist (SerializeJSONProperty (gap @ gap) (entry_json e)) ?s"
    "\<forall>m \<in> set (markers f). sublist (QuoteJSONString m) ?s"
    by (simp_all add: sublist_id_in_export sublist_entry_in_export sublist_marker_in_export)
  from call out inj text_inj parts assms show ?thesis
    by blast
qed

theorem exportLineage_pure_witness:
  \<open>deref [construct Fiber ''a"b'' None] 0 = Some (construct Fiber ''a"b'' None)
   \<and> (\<exists>s h'. exportLineage 0 [construct Fiber ''a"b'' None] = Some (s, h')
           \<and> h' = [construct Fiber ''a"b'' None]
           \<and> exportLineage 0 h' = Some (s, h')
           \<and> s = ''{
  "id": "a'' @ [CHR 0x5C] @ ''"b",
  "history": [
    {
      "stage": "start",
      "color": "gold"
    }
  ],
  "markers": []
}''
           \<and> exportLineage 0 [construct Fiber ''ab'' None]
                \<noteq> Some (s, [construct Fiber ''ab'' None]))\<close>
proof -
  have live: \<open>deref [construct Fiber ''a"b'' None] 0 = Some (construct Fiber ''a"b'' None)\<close>
    by (simp add: deref_def)
  have fields: \<open>fiber_id (construct Fiber ''a"b'' None) = ''a"b''\<close>
    \<open>history (construct Fiber ''a"b'' None)
       = [\<lparr> stage = ''start'', entry_color = ''gold'', entry_context = None \<rparr>]\<close>
    \<open>markers (construct Fiber ''a"b'' None) = []\<close>
    by (simp_all add: Fiber_constructor_def Let_def)
  have printed: \<open>JSON_stringify
           (JObj [(''id'', JStr ''a"b''),
                  (''history'', JArr (map entry_json
                      [\<lparr> stage = ''start'', entry_color = ''gold'', entry_context = None \<rparr>])),
                  (''markers'', JArr (map JStr []))])
      = ''{
  "id": "a'' @ [CHR 0x5C] @ ''"b",
  "history": [
    {
      "stage": "start",
      "color": "gold"
    }
  ],
  "markers": []
}''\<close>
    by (simp add: JSON_stringify_def entry_json_def gap_def QuoteJSONString_def escape_char_def)
  have other: \<open>deref [construct Fiber ''ab'' None] 0 = Some (construct Fiber ''ab'' None)\<close>
    \<open>fiber_id (construct Fiber ''ab'' None) \<noteq> ''a"b''\<close>
    by (simp_all add: deref_def Fiber_constructor_def Let_def)
  from exportLineage_pure [OF live, unfolded fields printed]
  obtain s h' where
    call: \<open>exportLineage 0 [construct Fiber ''a"b'' None] = Some (s, h')\<close>
    and same: \<open>h' = [construct Fiber ''a"b'' None]\<close>
    and again: \<open>exportLineage 0 h' = Some (s, h')\<close>
    and shown: \<open>s = ''{
  "id": "a'' @ [CHR 0x5C] @ ''"b",
  "history": [
    {
      "stage": "start",
      "color": "gold"
    }
  ],
  "markers": []
}''\<close>
    and det: \<open>\<forall>h2 r2 g. deref h2 r2 = Some g \<and> exportLineage r2 h2 = Some (s, h2) \<longrightarrow>
        fiber_id g = ''a"b''
        \<and> history g = [\<lparr> stage = ''start'', entry_color = ''gold'', entry_context = None \<rparr>]
        \<and> markers g = []\<close>
    by (elim exE conjE) (rule that; assumption)
  from det other have differs: \<open>exportLineage 0 [construct Fiber ''ab'' None]
                                  \<noteq> Some (s, [construct Fiber ''ab'' None])\<close>
    by blast
  show ?thesis
  proof (rule conjI [OF live], rule exI [of _ s], rule exI [of _ h'], intro conjI)
    show \<open>exportLineage 0 [construct Fiber ''a"b'' None] = Some (s, h')\<close> by (rule call)
    show \<open>h' = [construct Fiber ''a"b'' None]\<close> by (rule same)
    show \<open>exportLineage 0 h' = Some (s, h')\<close> by (rule again)
    show \<open>s = ''{
  "id": "a'' @ [CHR 0x5C] @ ''"b",
  "history": [
    {
      "stage": "start",
      "color": "gold"
    }
  ],
  "markers": []
}''\<close> by (rule shown)
    show \<open>exportLineage 0 [construct Fiber ''ab'' None]
            \<noteq> Some (s, [construct Fiber ''ab'' None])\<close> by (rule differs)
  qed
qed

section \<open>The context of a history entry\<close>

text \<open>
  Claim C10. On a Fiber created in any way and after any calls, the first history entry
  is the "start" entry without a context property and every later entry has one. A
  transform called without the context argument appends an entry whose context is
  \<open>null\<close>; whatever calls follow, the text a later exportLineage returns contains the
  serialisation of that entry, and that serialisation contains \<open>"context": null\<close>.
\<close>

theorem omitted_context_is_null:
  "\<exists>f g outs e s.
      fiber_after c i col h calls = Some f
    \<and> stage (hd (history f)) = ''start''
    \<and> entry_context (hd (history f)) = None
    \<and> list_all (\<lambda>x. entry_context x \<noteq> None) (tl (history f))
    \<and> e = \<lparr> stage = typ, entry_color = col', entry_context = Some JNull \<rparr>
    \<and> fiber_after c i col h (calls @ [Transform typ col' None]) = Some g
    \<and> history g = history f @ [e]
    \<and> returns_after c i col h ((calls @ [Transform typ col' None] @ later) @ [ExportLineage])
          = Some outs
    \<and> last outs = RetString s
    \<and> sublist (SerializeJSONProperty (gap @ gap) (entry_json e)) s
    \<and> sublist (CHR 0x22 # ''context'' @ CHR 0x22 # '': null'')
          (SerializeJSONProperty (gap @ gap) (entry_json e))"
proof -
  let ?start = "construct c i col"
  let ?f = "foldl apply_call ?start calls"
  let ?e = "\<lparr> stage = typ, entry_color = col', entry_context = Some JNull \<rparr>"
  let ?g = "foldl apply_call ?start (calls @ [Transform typ col' None])"
  let ?cs = "calls @ [Transform typ col' None] @ later"
  let ?g' = "foldl apply_call ?start ?cs"
  let ?outs = "returns_of (length h) ?start (?cs @ [ExportLineage])"
  have inv: "context_inv ?f"
    by (rule context_inv_foldl [OF context_inv_construct])
  have f: "fiber_after c i col h calls = Some ?f"
    by (rule fiber_after_eq)
  have g: "fiber_after c i col h (calls @ [Transform typ col' None]) = Some ?g"
    by (rule fiber_after_eq)
  have hist: "history ?g = history ?f @ [?e]"
    by (simp add: Fiber_transform_def Let_def)
  have outs: "returns_after c i col h (?cs @ [ExportLineage]) = Some ?outs"
    by (rule returns_after_eq)
  have lst: "last ?outs = RetString (Fiber_exportLineage ?g')"
    by (simp only: returns_of_snoc last_snoc return_of.simps)
  have "?g' = foldl apply_call ?g later"
    by simp
  then have "prefix (history ?g) (history ?g')"
    by (simp only: prefix_history_foldl)
  then have "set (history ?g) \<subseteq> set (history ?g')"
    by (rule set_mono_prefix)
  with hist have "?e \<in> set (history ?g')"
    by auto
  then have sub: "sublist (SerializeJSONProperty (gap @ gap) (entry_json ?e)) (Fiber_exportLineage ?g')"
    by (rule sublist_entry_in_export)
  have null: "sublist (CHR 0x22 # ''context'' @ CHR 0x22 # '': null'')
                (SerializeJSONProperty (gap @ gap) (entry_json ?e))"
    by (rule null_context_in_entry)
  from inv have first: "stage (hd (history ?f)) = ''start''" "entry_context (hd (history ?f)) = None"
    "list_all (\<lambda>x. entry_context x \<noteq> None) (tl (history ?f))"
    by (simp_all add: context_inv_def)
  from f first g hist outs lst sub null show ?thesis
    by blast
qed

text \<open>The text exported for \<open>new Fiber('f0').transform('spin', 'lightgreen')\<close>.\<close>

lemma export_example:
  \<open>returns_after Fiber ''f0'' None [] [Transform ''spin'' ''lightgreen'' None, ExportLineage]
     = Some [RetFiber 0, RetString
''{
  "id": "f0",
  "history": [
    {
      "stage": "start",
      "color": "gold"
    },
    {
      "stage": "spin",
      "color": "lightgreen",
      "context": null
    }
  ],
  "markers": []
}'']\<close>
  by (simp add: returns_after_eq Fiber_constructor_def Let_def Fiber_transform_def
      Fiber_exportLineage_def lineage_json_def entry_json_def JSON_stringify_def gap_def
      QuoteJSONString_def escape_char_def)

section \<open>WarpFiber and WeftFiber\<close>

text \<open>
  Claim C8. WarpFiber and WeftFiber declare no method, so every call on an object of any
  of the three classes runs the method of Fiber. Created with the same arguments in the
  same store and given the same calls, objects of two classes return the same values
  (the same reference from transform and addMarker, the same text from exportLineage)
  and end with the same id, colour (stage tag), history and markers.
\<close>

theorem subclasses_same_behaviour:
  "\<exists>f1 f2 outs.
      fiber_after c1 i col h calls = Some f1
    \<and> fiber_after c2 i col h calls = Some f2
    \<and> returns_after c1 i col h calls = Some outs
    \<and> returns_after c2 i col h calls = Some outs
    \<and> cls f1 = c1 \<and> cls f2 = c2
    \<and> fiber_id f1 = fiber_id f2
    \<and> color f1 = color f2
    \<and> history f1 = history f2
    \<and> markers f1 = markers f2
    \<and> resolve c1 m = Some Fiber \<and> resolve c2 m = Some Fiber
    \<and> declares WarpFiber = [] \<and> declares WeftFiber = []"
proof -
  let ?base = "foldl apply_call (construct Fiber i col) calls"
  let ?outs = "returns_of (length h) (construct Fiber i col) calls"
  have f1: "fiber_after c1 i col h calls = Some (?base\<lparr> cls := c1 \<rparr>)"
    by (simp only: fiber_after_eq foldl_construct_cls [of c1])
  have f2: "fiber_after c2 i col h calls = Some (?base\<lparr> cls := c2 \<rparr>)"
    by (simp only: fiber_after_eq foldl_construct_cls [of c2])
  have o1: "returns_after c1 i col h calls = Some ?outs"
    by (simp only: returns_after_eq returns_of_construct_cls [of _ c1])
  have o2: "returns_after c2 i col h calls = Some ?outs"
    by (simp only: returns_after_eq returns_of_construct_cls [of _ c2])
  have same: "cls (?base\<lparr> cls := c1 \<rparr>) = c1" "cls (?base\<lparr> cls := c2 \<rparr>) = c2"
    "fiber_id (?base\<lparr> cls := c1 \<rparr>) = fiber_id (?base\<lparr> cls := c2 \<rparr>)"
    "color (?base\<lparr> cls := c1 \<rparr>) = color (?base\<lparr> cls := c2 \<rparr>)"
    "history (?base\<lparr> cls := c1 \<rparr>) = history (?base\<lparr> cls := c2 \<rparr>)"
    "markers (?base\<lparr> cls := c1 \<rparr>) = markers (?base\<lparr> cls := c2 \<rparr>)"
    by simp_all
  have disp: "resolve c1 m = Some Fiber" "resolve c2 m = Some Fiber"
    "declares WarpFiber = []" "declares WeftFiber = []"
    by (simp_all add: resolve_Fiber)
  from f1 f2 o1 o2 same disp show ?thesis
    by blast
qed

section \<open>filterFibers\<close>

lemma String_includes_iff_sublist: "String_includes s q \<longleftrightarrow> sublist q s"
  by (induction s) (simp_all add: sublist_Cons_right)

lemma toLowerCase_Nil: "toLowerCase [] = []"
  by (simp add: toLowerCase_def)

lemma toLowerCase_eq_Nil: "toLowerCase q = [] \<longleftrightarrow> q = []"
  by (simp add: toLowerCase_def)

lemma Array_filter_total:
  assumes "\<forall>x \<in> set xs. p x = Inr (P x)"
  shows "Array_filter p xs = Inr (filter P xs)"
  using assms by (induction xs) simp_all

lemma Array_filter_error:
  assumes "p x = Inl e" and "\<forall>y \<in> set xs. \<exists>b. p y = Inr b"
  shows "Array_filter p (xs @ x # ys) = Inl e"
  using assms by (induction xs) auto

lemma example_bar: "filterFibers [hello_world, another_note] ''bar'' = Inr [another_note]"
  by (simp add: filterFibers_def fiber_matches_def toLowerCase_def lower_char_def char_of_eq_iff
      hello_world_def another_note_def)

lemma sublist_eval: "sublist q s = String_includes s q"
  by (simp add: String_includes_iff_sublist)

lemma filterFibers_missing_content:
  assumes "content x = None" and "\<forall>y \<in> set xs. content y \<noteq> None"
  shows "filterFibers (xs @ x # ys) q = Inl TypeError"
proof -
  have "fiber_matches (toLowerCase q) x = Inl TypeError"
    using assms(1) by (simp add: fiber_matches_def)
  moreover have "\<forall>y \<in> set xs. \<exists>b. fiber_matches (toLowerCase q) y = Inr b"
    using assms(2) by (auto simp: fiber_matches_def)
  ultimately show ?thesis
    unfolding filterFibers_def Let_def by (rule Array_filter_error)
qed

lemma eq_char_of_iff: "c = char_of n \<longleftrightarrow> take_bit 8 n = of_char c"
  using char_of_eq_iff [of n c] by auto

lemma toLowerCase_table:
  "list_all2 (\<lambda>u l. toLowerCase [u] = [l]) capital_letters small_letters"
  by (simp add: capital_letters_def small_letters_def toLowerCase_def lower_char_def
      char_of_eq_iff)

lemma capital_codes:
  assumes "(0x41 \<le> n \<and> n \<le> 0x5A) \<or> (0xC0 \<le> n \<and> n \<le> 0xDE \<and> n \<noteq> 0xD7)"
  shows "(n::nat) \<in> of_char ` set capital_letters"
  using assms by (simp add: capital_letters_def) arith

lemma lower_char_other: "c \<notin> set capital_letters \<Longrightarrow> lower_char c = c"
proof (rule ccontr)
  assume out: "c \<notin> set capital_letters" and "lower_char c \<noteq> c"
  then have "(0x41 \<le> (of_char c :: nat) \<and> (of_char c :: nat) \<le> 0x5A)
             \<or> (0xC0 \<le> (of_char c :: nat) \<and> (of_char c :: nat) \<le> 0xDE
                 \<and> (of_char c :: nat) \<noteq> 0xD7)"
    by (simp add: lower_char_def Let_def split: if_splits)
  then have "(of_char c :: nat) \<in> of_char ` set capital_letters"
    by (rule capital_codes)
  then obtain d where "d \<in> set capital_letters" "(of_char c :: nat) = of_char d"
    by blast
  then have "c \<in> set capital_letters"
    by simp
  with out show False by simp
qed

lemma toLowerCase_other: "\<forall>c. c \<notin> set capital_letters \<longrightarrow> toLowerCase [c] = [c]"
  by (simp add: toLowerCase_def lower_char_other)

lemma toLowerCase_append: "toLowerCase (s @ t) = toLowerCase s @ toLowerCase t"
  by (simp add: toLowerCase_def)

text \<open>
  Claim C4. For a list of units that all have a content and a tags text, and any query,
  filterFibers returns the units, in their original order, for which the lower-cased
  query is a substring of the lower-cased content or of the lower-cased tags. The empty
  query returns the whole list, and on the two units "hello world"/"foo" and
  "another note"/"bar" the query "bar" returns exactly the second. Lower-casing works
  character by character: it takes each capital letter to the small letter at the same
  position of the two tables and keeps every other character.
\<close>

theorem filterFibers_spec:
  assumes "\<forall>f \<in> set list. content f \<noteq> None \<and> tags f \<noteq> None"
  shows "\<exists>ys. filterFibers list q = Inr ys
           \<and> ys = filter (\<lambda>f. sublist (toLowerCase q) (toLowerCase (the (content f)))
                            \<or> sublist (toLowerCase q) (toLowerCase (the (tags f)))) list
           \<and> subseq ys list
           \<and> filterFibers list [] = Inr list
           \<and> filterFibers [hello_world, another_note] ''bar'' = Inr [another_note]
           \<and> list_all2 (\<lambda>u l. toLowerCase [u] = [l]) capital_letters small_letters
           \<and> (\<forall>c. c \<notin> set capital_letters \<longrightarrow> toLowerCase [c] = [c])
           \<and> toLowerCase (s @ t) = toLowerCase s @ toLowerCase t"
proof -
  let ?P = "\<lambda>q f. sublist (toLowerCase q) (toLowerCase (the (content f)))
                  \<or> sublist (toLowerCase q) (toLowerCase (the (tags f)))"
  have callback: "\<forall>f \<in> set list. fiber_matches (toLowerCase q') f = Inr (?P q' f)" for q'
    using assms by (auto simp: fiber_matches_def String_includes_iff_sublist)
  have gen: "filterFibers list q' = Inr (filter (?P q') list)" for q'
    unfolding filterFibers_def Let_def by (rule Array_filter_total [OF callback])
  have all: "filter (?P []) list = list"
    by (simp add: toLowerCase_Nil)
  have empty: "filterFibers list [] = Inr list"
    by (simp only: gen [of "[]"] all)
  have sub: "subseq (filter (?P q) list) list"
    by simp
  from gen [of q] sub empty example_bar toLowerCase_table toLowerCase_other
    toLowerCase_append [of s t]
  show ?thesis
    by blast
qed

theorem filterFibers_spec_witness:
  "content hello_world \<noteq> None \<and> tags hello_world \<noteq> None
   \<and> content cafe_menu \<noteq> None \<and> tags cafe_menu \<noteq> None
   \<and> (\<exists>ys. filterFibers [hello_world, cafe_menu] ''Hello'' = Inr ys
          \<and> ys = [hello_world])
   \<and> (\<exists>ys. filterFibers [hello_world, cafe_menu] [CHR 0xE9] = Inr ys
          \<and> ys = [cafe_menu])
   \<and> (\<exists>ys. filterFibers [hello_world, cafe_menu] ''DRINK'' = Inr ys
          \<and> ys = [cafe_menu])
   \<and> filterFibers [hello_world, cafe_menu] [] = Inr [hello_world, cafe_menu]"
proof -
  let ?list = "[hello_world, cafe_menu]"
  let ?P = "\<lambda>q f. sublist (toLowerCase q) (toLowerCase (the (content f)))
                  \<or> sublist (toLowerCase q) (toLowerCase (the (tags f)))"
  have fields: "content hello_world \<noteq> None" "tags hello_world \<noteq> None"
    "content cafe_menu \<noteq> None" "tags cafe_menu \<noteq> None"
    by (simp_all add: hello_world_def cafe_menu_def)
  then have present: "\<forall>f \<in> set ?list. content f \<noteq> None \<and> tags f \<noteq> None"
    by simp
  have eval: "filter (?P ''Hello'') ?list = [hello_world]"
    "filter (?P [CHR 0xE9]) ?list = [cafe_menu]"
    "filter (?P ''DRINK'') ?list = [cafe_menu]"
    by (simp_all add: sublist_eval toLowerCase_def lower_char_def char_of_eq_iff eq_char_of_iff
        hello_world_def cafe_menu_def)
  from filterFibers_spec [OF present, of "''Hello''"]
  have r1: "filterFibers ?list ''Hello'' = Inr (filter (?P ''Hello'') ?list)"
    and r0: "filterFibers ?list [] = Inr ?list"
    by blast+
  from filterFibers_spec [OF present, of "[CHR 0xE9]"]
  have r2: "filterFibers ?list [CHR 0xE9] = Inr (filter (?P [CHR 0xE9]) ?list)"
    by blast
  from filterFibers_spec [OF present, of "''DRINK''"]
  have r3: "filterFibers ?list ''DRINK'' = Inr (filter (?P ''DRINK'') ?list)"
    by blast
  from fields r0 r1 r2 r3 show ?thesis
    by (simp only: eval) simp
qed

text \<open>
  Claim C9. When every unit has a content text, filterFibers returns a list whether or
  not the units have tags. A unit whose tags are absent or empty is kept by the empty
  query, and by a non-empty query exactly when the lower-cased query is a substring of
  its lower-cased content; absent tags and empty tags are matched alike. Lower-casing
  works character by character: it takes each capital letter to the small letter at the
  same position of the two tables and keeps every other character.
\<close>

theorem filterFibers_missing_tags:
  assumes "\<forall>f \<in> set list. content f \<noteq> None"
  shows "\<exists>ys. filterFibers list q = Inr ys
           \<and> (\<forall>f \<in> set list. tags f = None \<or> tags f = Some [] \<longrightarrow>
                  (q = [] \<longrightarrow> f \<in> set ys)
                \<and> (q \<noteq> [] \<longrightarrow>
                     (f \<in> set ys \<longleftrightarrow> sublist (toLowerCase q) (toLowerCase (the (content f))))))
           \<and> fiber_matches (toLowerCase q) (u\<lparr> tags := None \<rparr>)
               = fiber_matches (toLowerCase q) (u\<lparr> tags := Some [] \<rparr>)
           \<and> list_all2 (\<lambda>u l. toLowerCase [u] = [l]) capital_letters small_letters
           \<and> (\<forall>c. c \<notin> set capital_letters \<longrightarrow> toLowerCase [c] = [c])
           \<and> toLowerCase (s @ t) = toLowerCase s @ toLowerCase t"
proof -
  let ?t = "\<lambda>f. case tags f of None \<Rightarrow> [] | Some t \<Rightarrow> t"
  let ?P = "\<lambda>f. sublist (toLowerCase q) (toLowerCase (the (content f)))
                  \<or> sublist (toLowerCase q) (toLowerCase (?t f))"
  have callback: "\<forall>f \<in> set list. fiber_matches (toLowerCase q) f = Inr (?P f)"
    using assms by (auto simp: fiber_matches_def String_includes_iff_sublist split: option.splits)
  have res: "filterFibers list q = Inr (filter ?P list)"
    unfolding filterFibers_def Let_def by (rule Array_filter_total [OF callback])
  have sel: "\<forall>f \<in> set list. tags f = None \<or> tags f = Some [] \<longrightarrow>
                  (q = [] \<longrightarrow> f \<in> set (filter ?P list))
                \<and> (q \<noteq> [] \<longrightarrow>
                     (f \<in> set (filter ?P list)
                        \<longleftrightarrow> sublist (toLowerCase q) (toLowerCase (the (content f)))))"
    by (auto simp: toLowerCase_Nil toLowerCase_eq_Nil)
  have same: "fiber_matches (toLowerCase q) (u\<lparr> tags := None \<rparr>)
               = fiber_matches (toLowerCase q) (u\<lparr> tags := Some [] \<rparr>)"
    by (simp add: fiber_matches_def split: option.splits)
  from res sel same toLowerCase_table toLowerCase_other toLowerCase_append [of s t]
  show ?thesis
    by blast
qed

theorem filterFibers_missing_tags_witness:
  "content untagged_note \<noteq> None \<and> content untagged_cafe \<noteq> None
   \<and> tags untagged_note = None \<and> tags untagged_cafe = None
   \<and> (\<exists>ys. filterFibers [untagged_note, untagged_cafe] ''NOTE'' = Inr ys
          \<and> untagged_note \<in> set ys \<and> untagged_cafe \<notin> set ys)
   \<and> (\<exists>ys. filterFibers [untagged_note, untagged_cafe] [CHR 0xE9] = Inr ys
          \<and> untagged_note \<notin> set ys \<and> untagged_cafe \<in> set ys)
   \<and> (\<exists>ys. filterFibers [untagged_note, untagged_cafe] [] = Inr ys
          \<and> untagged_note \<in> set ys \<and> untagged_cafe \<in> set ys)"
proof -
  let ?list = "[untagged_note, untagged_cafe]"
  have fields: "content untagged_note \<noteq> None" "content untagged_cafe \<noteq> None"
    "tags untagged_note = None" "tags untagged_cafe = None"
    by (simp_all add: untagged_note_def untagged_cafe_def)
  then have present: "\<forall>f \<in> set ?list. content f \<noteq> None"
    by simp
  have eval:
    "sublist (toLowerCase ''NOTE'') (toLowerCase (the (content untagged_note)))"
    "\<not> sublist (toLowerCase ''NOTE'') (toLowerCase (the (content untagged_cafe)))"
    "\<not> sublist (toLowerCase [CHR 0xE9]) (toLowerCase (the (content untagged_note)))"
    "sublist (toLowerCase [CHR 0xE9]) (toLowerCase (the (content untagged_cafe)))"
    by (simp_all add: sublist_eval toLowerCase_def lower_char_def char_of_eq_iff eq_char_of_iff
        untagged_note_def untagged_cafe_def)
  from filterFibers_missing_tags [OF present, of "''NOTE''"]
  obtain ys1 where r1: "filterFibers ?list ''NOTE'' = Inr ys1"
    and s1: "\<forall>f \<in> set ?list. tags f = None \<or> tags f = Some [] \<longrightarrow>
                  (''NOTE'' = [] \<longrightarrow> f \<in> set ys1)
                \<and> (''NOTE'' \<noteq> [] \<longrightarrow>
                     (f \<in> set ys1 \<longleftrightarrow> sublist (toLowerCase ''NOTE'') (toLowerCase (the (content f)))))"
    by blast
  from s1 fields eval have m1: "untagged_note \<in> set ys1" "untagged_cafe \<notin> set ys1"
    by simp_all
  from filterFibers_missing_tags [OF present, of "[CHR 0xE9]"]
  obtain ys2 where r2: "filterFibers ?list [CHR 0xE9] = Inr ys2"
    and s2: "\<forall>f \<in> set ?list. tags f = None \<or> tags f = Some [] \<longrightarrow>
                  ([CHR 0xE9] = [] \<longrightarrow> f \<in> set ys2)
                \<and> ([CHR 0xE9] \<noteq> [] \<longrightarrow>
                     (f \<in> set ys2 \<longleftrightarrow> sublist (toLowerCase [CHR 0xE9]) (toLowerCase (the (content f)))))"
    by blast
  from s2 fields eval have m2: "untagged_note \<notin> set ys2" "untagged_cafe \<in> set ys2"
    by simp_all
  from filterFibers_missing_tags [OF present, of "[]"]
  obtain ys3 where r3: "filterFibers ?list [] = Inr ys3"
    and s3: "\<forall>f \<in> set ?list. tags f = None \<or> tags f = Some [] \<longrightarrow>
                  ([] = ([] :: string) \<longrightarrow> f \<in> set ys3)
                \<and> (([] :: string) \<noteq> [] \<longrightarrow>
                     (f \<in> set ys3 \<longleftrightarrow> sublist (toLowerCase []) (toLowerCase (the (content f)))))"
    by blast
  from s3 fields have m3: "untagged_note \<in> set ys3" "untagged_cafe \<in> set ys3"
    by simp_all
  from fields r1 m1 r2 m2 r3 m3 show ?thesis
    by blast
qed

section \<open>The transcription stub\<close>

lemma string_of_nat_digit: "n < 10 \<Longrightarrow> string_of_nat n = [digit_char n]"
  by (simp add: string_of_nat.simps)

lemma format_length: "length (format_string format) = 3"
  by (cases format) simp_all

lemma string_of_nat_examples:
  "string_of_nat 0 = ''0''" "string_of_nat 7 = ''7''" "string_of_nat 1207 = ''1207''"
  by (simp_all add: string_of_nat.simps digit_char_def)

text \<open>
  Claim C7, as the code has it. The result is computed from a length alone: its text is
  \<open>transcribed N bytes\<close>, its confidence 1 and its timestamps empty. For a file, N is
  the number of bytes read. For a raw buffer, N is the number of bytes of the buffer
  plus the length of the format name, which is 3 for each of the three formats.
\<close>

theorem transcription_stub:
  "fakeTranscription n
     = \<lparr> result_text = ''transcribed '' @ string_of_nat n @ '' bytes'',
         confidence = 1, timestamps = [] \<rparr>
   \<and> transcribeRawAudio buffer format
     = Inr \<lparr> result_text = ''transcribed '' @ string_of_nat (length buffer + 3) @ '' bytes'',
             confidence = 1, timestamps = [] \<rparr>
   \<and> transcribeAudioFile (fs(filePath \<mapsto> buffer)) filePath
     = Inr \<lparr> result_text = ''transcribed '' @ string_of_nat (length buffer) @ '' bytes'',
             confidence = 1, timestamps = [] \<rparr>"
  by (simp add: fakeTranscription_def transcribeRawAudio_def transcribeAudioFile_def
      format_length Let_def)

text \<open>
  Claim C7 as stated fails for a raw buffer: for four bytes of WAV audio the text is
  \<open>transcribed 7 bytes\<close>, not \<open>transcribed 4 bytes\<close>.
\<close>

theorem raw_audio_count_counterexample:
  "transcribeRawAudio [0, 0, 0, 0] Wav
     = Inr \<lparr> result_text = ''transcribed 7 bytes'', confidence = 1, timestamps = [] \<rparr>
   \<and> transcribeRawAudio [0, 0, 0, 0] Wav
     \<noteq> Inr \<lparr> result_text = ''transcribed '' @ string_of_nat (length [0, 0, 0, 0 :: byte]) @ '' bytes'',
             confidence = 1, timestamps = [] \<rparr>"
  by (simp add: transcribeRawAudio_def fakeTranscription_def string_of_nat_digit digit_char_def)

end
